theory Spec2Isabelle
  imports
    Complex_Main
    "HOL-Library.AList"
    "HOL-Library.Char_ord"
    "HOL-Library.List_Lexorder"
    "HOL-Library.Multiset"
    "HOL-Library.Log_Nat"
    "HOL-Library.Signed_Division"
begin

section \<open>Go values used by the program\<close>

text \<open>
  A Go \<^verbatim>\<open>string\<close> is a byte sequence and \<^verbatim>\<open><\<close> on strings compares byte by byte, a proper
  prefix being smaller: this is the lexicographic order of \<^typ>\<open>string\<close> over the byte order
  of \<^typ>\<open>char\<close>.

  A Go map with string keys is modelled by the list of its entries, keys distinct. For a
  map the program receives, the order of the list is the order in which the one
  \<^verbatim>\<open>range\<close> over it visits the entries; Go chooses that order afresh for every
  \<^verbatim>\<open>range\<close>, so every permutation of the list is a possible visit of the same map, and
  a statement about the map holds for all of them. \<^verbatim>\<open>m[k] = v\<close> is \<^term>\<open>AList.update k v m\<close>,
  \<^verbatim>\<open>v, ok := m[k]\<close> is \<^term>\<open>map_of m k\<close>.
\<close>

type_synonym 'v gomap = "(string \<times> 'v) list"

definition wf_map :: "'v gomap \<Rightarrow> bool" where
  "wf_map m \<longleftrightarrow> distinct (map fst m)"

text \<open>The same map, its entries visited in another order.\<close>

definition same_map :: "'v gomap \<Rightarrow> 'v gomap \<Rightarrow> bool" where
  "same_map m m' \<longleftrightarrow> mset m = mset m'"

text \<open>
  A \<^verbatim>\<open>range\<close> over a map that the program builds itself takes the order of its visit from
  the run: a function that permutes the entries.
\<close>

definition is_visit :: "('a list \<Rightarrow> 'a list) \<Rightarrow> bool" where
  "is_visit visit \<longleftrightarrow> (\<forall>m. mset (visit m) = mset m)"

text \<open>\<^verbatim>\<open>m[k]\<close> on a \<^verbatim>\<open>map[string]string\<close>: the empty string when the key is absent.\<close>

definition map_index :: "string gomap \<Rightarrow> string \<Rightarrow> string" where
  "map_index m k = (case map_of m k of None \<Rightarrow> [] | Some v \<Rightarrow> v)"

text \<open>\<^verbatim>\<open>strings.Join(elems, sep)\<close>.\<close>

fun Join :: "string list \<Rightarrow> string \<Rightarrow> string" where
  "Join [] sep = []"
| "Join [x] sep = x"
| "Join (x # y # ys) sep = x @ sep @ Join (y # ys) sep"

text \<open>\<^verbatim>\<open>fmt.Sprintf("%d", i)\<close>: the decimal digits, a minus sign before a negative number.\<close>

fun digits :: "nat \<Rightarrow> string" where
  "digits n =
     (if n < 10 then [''0123456789'' ! n]
      else digits (n div 10) @ [''0123456789'' ! (n mod 10)])"

definition Sprintf_d :: "int \<Rightarrow> string" where
  "Sprintf_d i = (if i < 0 then ''-'' @ digits (nat (- i)) else digits (nat i))"

definition newline :: string where
  "newline = [CHR 0x0A]"

section \<open>float64 arithmetic\<close>

text \<open>
  A finite \<^verbatim>\<open>float64\<close> is the rational number it denotes. Every arithmetic operation of Go
  on \<^verbatim>\<open>float64\<close>, and every conversion to it, returns the exact result rounded to the nearest
  \<^verbatim>\<open>float64\<close>, a tie going to the even significand (IEEE 754 binary64): \<^verbatim>\<open>x / y\<close> is
  \<open>f64 (x / y)\<close>. A \<^verbatim>\<open>float64\<close> has a significand of 53 bits, so between one power of two
  \<open>2 ^ e\<close> and the next the representable numbers are the multiples of \<open>2 ^ (e - 52)\<close>, and
  below the smallest normal number the multiples of \<open>2 ^ (- 1074)\<close>. Overflow to an infinity
  needs a magnitude of \<open>2 ^ 1024\<close>, far from the values of this program (a duration is an
  \<^verbatim>\<open>int64\<close>), and is not modelled.
\<close>

type_synonym float64 = rat

text \<open>The nearest integer, a tie going to the even one.\<close>

definition round_even :: "rat \<Rightarrow> int" where
  "round_even x =
     (let n = \<lfloor>x\<rfloor>; r = x - of_int n
      in if r < 1 / 2 then n else if 1 / 2 < r then n + 1 else if even n then n else n + 1)"

text \<open>The power of two at or below a positive number: the \<open>e\<close> with \<open>2 ^ e \<le> x < 2 ^ (e + 1)\<close>.\<close>

definition exponent2 :: "rat \<Rightarrow> int" where
  "exponent2 x =
     (case quotient_of x of
        (p, q) \<Rightarrow> let e = bitlen p - bitlen q in if 2 powi e \<le> x then e else e - 1)"

definition f64 :: "rat \<Rightarrow> float64" where
  "f64 x =
     (if x = 0 then 0
      else let ulp = 2 powi (max (exponent2 \<bar>x\<bar> - 52) (- 1074))
           in of_int (round_even (x / ulp)) * ulp)"

text \<open>
  The conversion \<^verbatim>\<open>int(x)\<close> of a \<^verbatim>\<open>float64\<close> discards the fraction (truncation towards
  zero).
\<close>

definition go_int :: "float64 \<Rightarrow> int" where
  "go_int x = (if 0 \<le> x then \<lfloor>x\<rfloor> else \<lceil>x\<rceil>)"

section \<open>The resolution (prometheus.go, steps)\<close>

text \<open>
  A \<^verbatim>\<open>time.Duration\<close> is an \<^verbatim>\<open>int64\<close> count of nanoseconds, here the integer it denotes;
  \<^verbatim>\<open>steps\<close> does no arithmetic on it that could overflow. \<^verbatim>\<open>time.Minute\<close> is the constant
  \<open>60 * 10 ^ 9\<close>.
\<close>

definition Minute :: int where
  "Minute = 60 * 1000000000"

text \<open>
  \<^verbatim>\<open>func (d Duration) Minutes() float64\<close> of package time:
  \<^verbatim>\<open>min := d / Minute; nsec := d % Minute; return float64(min) + float64(nsec)/(60*1e9)\<close>,
  with Go's truncating division and remainder on integers.
\<close>

definition Minutes :: "int \<Rightarrow> float64" where
  "Minutes d =
     (let min = d sdiv Minute; nsec = d smod Minute
      in f64 (f64 (of_int min) + f64 (f64 (of_int nsec) / f64 (60 * 1000000000))))"

definition steps :: "int \<Rightarrow> int \<Rightarrow> int" where
  "steps step dur =
     (if step > 0 then step
      else if dur < 15 * Minute then 1
      else if dur < 30 * Minute then 3
      else go_int (f64 (Minutes dur / f64 4.2)))"

text \<open>
  The policy in the words of the specification, the quotient taken in the rational numbers.
\<close>

definition spec_steps :: "int \<Rightarrow> int \<Rightarrow> int" where
  "spec_steps step dur =
     (if step > 0 then step
      else if dur < 15 * Minute then 1
      else if dur < 30 * Minute then 3
      else \<lfloor>(of_int dur / of_int Minute :: rat) / 4.2\<rfloor>)"

section \<open>The metric name (prometheus.go, metricName)\<close>

text \<open>\<^verbatim>\<open>fmt.Sprintf(`%s="%s"`, key, value)\<close>.\<close>

definition Sprintf_label :: "string \<Rightarrow> string \<Rightarrow> string" where
  \<open>Sprintf_label key value = key @ ''="'' @ value @ ''"''\<close>

text \<open>
  The loop \<^verbatim>\<open>for key, value := range metric\<close>, on the entries in the order of the visit, with
  the variables \<^verbatim>\<open>out\<close> and \<^verbatim>\<open>inner\<close> as accumulators.
\<close>

fun metricName_range :: "string gomap \<Rightarrow> string \<Rightarrow> string list \<Rightarrow> string \<times> string list" where
  "metricName_range [] out inner = (out, inner)"
| "metricName_range ((key, value) # rest) out inner =
     (if key = ''__name__'' then metricName_range rest value inner
      else metricName_range rest out (inner @ [Sprintf_label key value]))"

text \<open>
  \<^verbatim>\<open>sort.Slice(inner, func(i, j) { return inner[i] < inner[j] })\<close> leaves \<^verbatim>\<open>inner\<close> sorted by
  the string order, which is linear, so the sorted slice is determined by the elements:
  it is \<^term>\<open>sort inner\<close>.
\<close>

definition metricName :: "string gomap \<Rightarrow> string" where
  "metricName metric =
     (if length metric = 0 then ''{}''
      else (case metricName_range metric [] [] of
        (out, inner) \<Rightarrow>
          if length inner = 0 then out
          else out @ ''{'' @ Join (sort inner) '','' @ ''}''))"

text \<open>What the loop computes, said of the map: the fragments and the base name.\<close>

definition fragments :: "string gomap \<Rightarrow> string list" where
  "fragments m = map (\<lambda>(k, v). Sprintf_label k v) (filter (\<lambda>(k, v). k \<noteq> ''__name__'') m)"

definition base_name :: "string gomap \<Rightarrow> string" where
  "base_name m = (case map_of m ''__name__'' of None \<Rightarrow> [] | Some v \<Rightarrow> v)"

section \<open>The range query (prometheus.go, Query and IcpQuery)\<close>

subsection \<open>The decoded response and the result\<close>

text \<open>
  A value decoded by \<^verbatim>\<open>encoding/json\<close> into an \<^verbatim>\<open>interface{}\<close> is \<^verbatim>\<open>nil\<close>, a \<^verbatim>\<open>bool\<close>, a
  \<^verbatim>\<open>float64\<close>, a \<^verbatim>\<open>string\<close>, a \<^verbatim>\<open>[]interface{}\<close> or a \<^verbatim>\<open>map[string]interface{}\<close>. The
  program only formats the numbers it finds, so their type \<open>'n\<close> is left open.
\<close>

datatype 'n json =
    JNull
  | JBool bool
  | JNumber 'n
  | JString string
  | JArray "'n json list"
  | JObject "(string \<times> 'n json) list"

text \<open>
  \<^verbatim>\<open>promResponse\<close>: the fields \<^verbatim>\<open>Status\<close>, \<^verbatim>\<open>Data.ResultType\<close> and \<^verbatim>\<open>Data.Result\<close>, and the
  fields \<^verbatim>\<open>Metric\<close> and \<^verbatim>\<open>Values\<close> of an element of \<^verbatim>\<open>Data.Result\<close>.
\<close>

record 'n promResult =
  Res_Metric :: "string gomap"
  Res_Values :: "'n json list list"

record 'n promResponse =
  Resp_Status :: string
  Data_ResultType :: string
  Data_Result :: "'n promResult list"

record Result =
  Metric :: string
  Values :: "string gomap"

text \<open>
  The errors the functions return, named as the specification names them, with what the
  message carries. A failed type assertion or an index out of range panics, and
  \<^verbatim>\<open>log.Fatal\<close> ends the process: neither returns.
\<close>

datatype error =
    UrlParseError string
  | TransportError string
  | RequestFailed string string
  | DecodeError string
  | UnsupportedResultType string
  | EmptyResult

datatype panic = IndexOutOfRange | TypeAssertion

datatype 'a outcome = Return 'a | Fatal | Panic panic

subsection \<open>The world outside the program\<close>

text \<open>
  The functions of the Go library that the two queries call, and the network, are
  parameters: an error is the message on the left of a sum.
\<close>

record URL =
  Other :: string
  Path :: string
  RawQuery :: string

record Request =
  Method :: string
  Url :: string
  Header :: "string gomap"

record Response =
  StatusCode :: int
  Status :: string
  Body :: string

record 'n world =
  url_Parse :: "string \<Rightarrow> string + URL"
  url_String :: "URL \<Rightarrow> string"
  url_ParseQuery :: "string \<Rightarrow> (string list) gomap"
  Values_Encode :: "(string list) gomap \<Rightarrow> string"
  ReadFile :: "string \<Rightarrow> string + string"
  NewRequest_error :: "string \<Rightarrow> string \<Rightarrow> string option"
  RoundTrip :: "string \<Rightarrow> Request \<Rightarrow> string + Response"
  json_Decode :: "string \<Rightarrow> string + 'n promResponse"
  Sprintf_f :: "'n \<Rightarrow> string"

text \<open>
  \<^verbatim>\<open>client.Get(url)\<close> of net/http builds the request with \<^verbatim>\<open>NewRequest("GET", url, nil)\<close>,
  returns its error if there is one, and sends the request, the roots of trust being the
  certificates read from the file.
\<close>

definition client_Get :: "'n world \<Rightarrow> string \<Rightarrow> string \<Rightarrow> string + Response" where
  "client_Get wd caCert url =
     (case NewRequest_error wd ''GET'' url of
        Some err \<Rightarrow> Inl err
      | None \<Rightarrow> RoundTrip wd caCert \<lparr>Method = ''GET'', Url = url, Header = []\<rparr>)"

text \<open>
  A \<^verbatim>\<open>time.Time\<close> as the seconds since the epoch and the nanoseconds within the second.
  \<^verbatim>\<open>t.Sub(u)\<close> is the difference in nanoseconds, at the smallest or largest \<^verbatim>\<open>int64\<close> when
  it does not fit (the difference of the monotonic clock readings, when both times have
  one, is not modelled apart).
\<close>

record Time =
  wall_sec :: int
  wall_nsec :: int

definition Unix :: "Time \<Rightarrow> int" where
  "Unix t = wall_sec t"

definition Sub :: "Time \<Rightarrow> Time \<Rightarrow> int" where
  "Sub t u =
     (let d = (wall_sec t - wall_sec u) * 1000000000 + (wall_nsec t - wall_nsec u)
      in if d < - (2 ^ 63) then - (2 ^ 63) else if 2 ^ 63 - 1 < d then 2 ^ 63 - 1 else d)"

subsection \<open>Query\<close>

text \<open>
  Lines 92 to 96: the loop over the pairs of one series. \<^verbatim>\<open>vals[0]\<close> and \<^verbatim>\<open>vals[1]\<close> panic
  when the index is out of range, the assertions when the element is of another type.
\<close>

fun Query_values :: "'n world \<Rightarrow> 'n json list list \<Rightarrow> string gomap \<Rightarrow> panic + string gomap" where
  "Query_values wd [] vs = Inr vs"
| "Query_values wd (vals # rest) vs =
     (case vals of
        [] \<Rightarrow> Inl IndexOutOfRange
      | v0 # vals1 \<Rightarrow>
         (case v0 of
            JNumber timestamp \<Rightarrow>
             (case vals1 of
                [] \<Rightarrow> Inl IndexOutOfRange
              | v1 # vals2 \<Rightarrow>
                 (case v1 of
                    JString val \<Rightarrow>
                      Query_values wd rest (AList.update (Sprintf_f wd timestamp) val vs)
                  | _ \<Rightarrow> Inl TypeAssertion))
          | _ \<Rightarrow> Inl TypeAssertion))"

text \<open>Lines 87 to 100: the loop over the series of the response.\<close>

fun Query_results :: "'n world \<Rightarrow> 'n promResult list \<Rightarrow> Result list \<Rightarrow> panic + Result list" where
  "Query_results wd [] results = Inr results"
| "Query_results wd (res # rest) results =
     (case Query_values wd (Res_Values res) [] of
        Inl p \<Rightarrow> Inl p
      | Inr vs \<Rightarrow>
          Query_results wd rest (results @ [\<lparr>Metric = metricName (Res_Metric res), Values = vs\<rparr>]))"

text \<open>Lines 69 to 102: what Query does with the response; \<open>url\<close> is \<^verbatim>\<open>u.String()\<close>.\<close>

definition Query_response :: "'n world \<Rightarrow> string \<Rightarrow> Response \<Rightarrow> (error + Result list) outcome" where
  "Query_response wd url response =
     (if StatusCode response \<noteq> 200 then Return (Inl (RequestFailed (Status response) url))
      else case json_Decode wd (Body response) of
        Inl err \<Rightarrow> Return (Inl (DecodeError err))
      | Inr resp \<Rightarrow>
          if Data_ResultType resp \<noteq> ''matrix''
          then Return (Inl (UnsupportedResultType (Data_ResultType resp)))
          else if length (Data_Result resp) = 0 then Return (Inl EmptyResult)
          else case Query_results wd (Data_Result resp) [] of
            Inl p \<Rightarrow> Panic p
          | Inr results \<Rightarrow> Return (Inr results))"

text \<open>Lines 40 to 46: the URL of the request, from the parsed host.\<close>

definition Query_url :: "'n world \<Rightarrow> URL \<Rightarrow> Time \<Rightarrow> Time \<Rightarrow> int \<Rightarrow> string \<Rightarrow> URL" where
  "Query_url wd u0 start end' step query =
     (let u1 = u0\<lparr>Path := ''api/v1/query_range''\<rparr>;
          q0 = url_ParseQuery wd (RawQuery u1);
          q1 = AList.update ''query'' [query] q0;
          q2 = AList.update ''start'' [Sprintf_d (Unix start)] q1;
          q3 = AList.update ''end'' [Sprintf_d (Unix end')] q2;
          q4 = AList.update ''step'' [Sprintf_d (steps step (Sub end' start))] q3
      in u1\<lparr>RawQuery := Values_Encode wd q4\<rparr>)"

definition Query ::
  "'n world \<Rightarrow> string \<Rightarrow> Time \<Rightarrow> Time \<Rightarrow> int \<Rightarrow> string \<Rightarrow> (error + Result list) outcome" where
  "Query wd host start end' step query =
     (case url_Parse wd host of
        Inl err \<Rightarrow> Return (Inl (UrlParseError err))
      | Inr u0 \<Rightarrow>
          let u = Query_url wd u0 start end' step query
          in case ReadFile wd ''cert.crt'' of
               Inl err \<Rightarrow> Fatal
             | Inr caCert \<Rightarrow>
                 (case client_Get wd caCert (url_String wd u) of
                    Inl err \<Rightarrow> Return (Inl (TransportError err))
                  | Inr response \<Rightarrow> Query_response wd (url_String wd u) response))"

subsection \<open>IcpQuery\<close>

text \<open>Lines 173 to 177.\<close>

fun IcpQuery_values :: "'n world \<Rightarrow> 'n json list list \<Rightarrow> string gomap \<Rightarrow> panic + string gomap" where
  "IcpQuery_values wd [] vs = Inr vs"
| "IcpQuery_values wd (vals # rest) vs =
     (case vals of
        [] \<Rightarrow> Inl IndexOutOfRange
      | v0 # vals1 \<Rightarrow>
         (case v0 of
            JNumber timestamp \<Rightarrow>
             (case vals1 of
                [] \<Rightarrow> Inl IndexOutOfRange
              | v1 # vals2 \<Rightarrow>
                 (case v1 of
                    JString val \<Rightarrow>
                      IcpQuery_values wd rest (AList.update (Sprintf_f wd timestamp) val vs)
                  | _ \<Rightarrow> Inl TypeAssertion))
          | _ \<Rightarrow> Inl TypeAssertion))"





section \<open>The renderers (csvWriter, csvHeaderWriter, matplotlibWriter, matplotlibLegendWriter)\<close>

text \<open>
  The sink \<open>w\<close> is the text written to it so far; a renderer returns the sink and the error
  it returns, which is always \<^verbatim>\<open>nil\<close> (the writes' own errors are dropped by the code).

  Lines 17 to 32 of csvWriter and lines 67 to 82 of matplotlibWriter are the same text:
  the times of all results are stored as keys of \<^verbatim>\<open>timesMap\<close>, the keys are appended to
  \<^verbatim>\<open>times\<close> in the order \<open>visit\<close> of a \<^verbatim>\<open>range\<close> over that map, and \<^verbatim>\<open>times\<close> is sorted.
  The slice \<^verbatim>\<open>times\<close> is \<open>tms\<close> below.
\<close>

fun timesMap_range :: "string gomap \<Rightarrow> bool gomap \<Rightarrow> bool gomap" where
  "timesMap_range [] timesMap = timesMap"
| "timesMap_range ((tm, v) # rest) timesMap = timesMap_range rest (AList.update tm True timesMap)"

fun timesMap_results :: "Result list \<Rightarrow> bool gomap \<Rightarrow> bool gomap" where
  "timesMap_results [] timesMap = timesMap"
| "timesMap_results (result # rest) timesMap =
     timesMap_results rest (timesMap_range (Values result) timesMap)"

fun times_range :: "bool gomap \<Rightarrow> string list \<Rightarrow> string list" where
  "times_range [] tms = tms"
| "times_range ((tm, b) # rest) tms = times_range rest (tms @ [tm])"

definition sorted_times :: "(bool gomap \<Rightarrow> bool gomap) \<Rightarrow> Result list \<Rightarrow> string list" where
  "sorted_times visit results =
     (let timesMap = timesMap_results results [];
          tms = times_range (visit timesMap) []
      in sort tms)"

text \<open>
  Lines 36 and 37 of csvWriter turn a key into a date with \<^verbatim>\<open>strconv.ParseInt\<close> and
  \<^verbatim>\<open>time.Unix(i64, 0).String()\<close>, which prints in the time zone of the process: the
  parameter \<open>uxdate\<close>.
\<close>

fun csv_fields :: "string \<Rightarrow> Result list \<Rightarrow> string \<Rightarrow> string" where
  "csv_fields w [] tm = w"
| "csv_fields w (result # rest) tm = csv_fields (w @ '','' @ map_index (Values result) tm) rest tm"

fun csv_rows :: "(string \<Rightarrow> string) \<Rightarrow> string \<Rightarrow> string list \<Rightarrow> Result list \<Rightarrow> string" where
  "csv_rows uxdate w [] results = w"
| "csv_rows uxdate w (tm # tms) results =
     csv_rows uxdate (csv_fields (w @ uxdate tm) results tm @ newline) tms results"

definition csvWriter ::
  "(bool gomap \<Rightarrow> bool gomap) \<Rightarrow> (string \<Rightarrow> string) \<Rightarrow> string \<Rightarrow> Result list
    \<Rightarrow> string \<times> error option" where
  "csvWriter visit uxdate w results =
     (if length results = 0 then (w, None)
      else (csv_rows uxdate w (sorted_times visit results) results, None))"

fun csv_header :: "Result list \<Rightarrow> string list \<Rightarrow> string list" where
  "csv_header [] header = header"
| "csv_header (result # rest) header = csv_header rest (header @ [Metric result])"

definition csvHeaderWriter :: "string \<Rightarrow> Result list \<Rightarrow> string \<times> error option" where
  "csvHeaderWriter w results =
     (if length results = 0 then (w, None)
      else (w @ Join (csv_header results [''Time'']) '','' @ newline, None))"

fun matplotlib_vals :: "Result \<Rightarrow> string list \<Rightarrow> string list \<Rightarrow> string list" where
  "matplotlib_vals result [] vals = vals"
| "matplotlib_vals result (tm # tms) vals =
     (case map_of (Values result) tm of
        Some val \<Rightarrow> matplotlib_vals result tms (vals @ [val])
      | None \<Rightarrow> matplotlib_vals result tms (vals @ [''None'']))"

fun matplotlib_series :: "string \<Rightarrow> nat \<Rightarrow> Result list \<Rightarrow> string list \<Rightarrow> string" where
  "matplotlib_series w i [] tms = w"
| "matplotlib_series w i (result # rest) tms =
     (let vals = matplotlib_vals result tms [];
          w1 = w @ ''s'' @ Sprintf_d (int i) @ '' = ['' @ Join vals '', '' @ '']'' @ newline;
          w2 = w1 @ ''plot.plot(t, s'' @ Sprintf_d (int i) @ '')'' @ newline
      in matplotlib_series w2 (Suc i) rest tms)"

definition matplotlibWriter ::
  "(bool gomap \<Rightarrow> bool gomap) \<Rightarrow> string \<Rightarrow> Result list \<Rightarrow> string \<times> error option" where
  "matplotlibWriter visit w results =
     (if length results = 0 then (w, None)
      else let tms = sorted_times visit results;
               w1 = w @ ''t = ['' @ Join tms '', '' @ '']'' @ newline
           in (matplotlib_series w1 0 results tms, None))"

fun legend_labels :: "Result list \<Rightarrow> string list \<Rightarrow> string list" where
  "legend_labels [] labels = labels"
| "legend_labels (result # rest) labels =
     legend_labels rest (labels @ [[CHR 0x27] @ Metric result @ [CHR 0x27]])"

definition matplotlibLegendWriter :: "string \<Rightarrow> Result list \<Rightarrow> string \<times> error option" where
  \<open>matplotlibLegendWriter w results =
     (let labels = legend_labels results []
      in (w @ ''plot.legend(['' @ Join labels '', '' @ ''], loc='upper left')'' @ newline, None))\<close>

section \<open>The aligned grid, in the words of the specification\<close>

text \<open>
  The axis is the union of the keys of all series, without duplicates, ascending in the
  order of the keys, which are strings. A cell is the value of a series at a time, or
  the absence marker: the empty field in the table, \<^verbatim>\<open>None\<close> in the plotting script.
\<close>

definition axis :: "Result list \<Rightarrow> string list" where
  "axis results = sort (remdups (concat (map (\<lambda>r. map fst (Values r)) results)))"

definition cell :: "string \<Rightarrow> Result \<Rightarrow> string \<Rightarrow> string" where
  "cell absent r tm = (case map_of (Values r) tm of None \<Rightarrow> absent | Some v \<Rightarrow> v)"

text \<open>One row of the table: the date and one field for every series.\<close>

definition csv_line :: "(string \<Rightarrow> string) \<Rightarrow> Result list \<Rightarrow> string \<Rightarrow> string" where
  "csv_line uxdate results tm =
     uxdate tm @ concat (map (\<lambda>r. '','' @ cell [] r tm) results) @ newline"

text \<open>The two lines of a series in the plotting script: one value for every time of the axis.\<close>

definition matplotlib_lines :: "string list \<Rightarrow> nat \<times> Result \<Rightarrow> string" where
  "matplotlib_lines tms ir =
     ''s'' @ Sprintf_d (int (fst ir)) @ '' = ['' @ Join (map (cell ''None'' (snd ir)) tms) '', ''
       @ '']'' @ newline
     @ ''plot.plot(t, s'' @ Sprintf_d (int (fst ir)) @ '')'' @ newline"





text \<open>
  The same series set given twice: the same names and the same sample maps in the same
  order, the entries of each map in any order.
\<close>

definition wf_results :: "Result list \<Rightarrow> bool" where
  "wf_results results \<longleftrightarrow> list_all (\<lambda>r. wf_map (Values r)) results"

definition same_series :: "Result list \<Rightarrow> Result list \<Rightarrow> bool" where
  "same_series results results' \<longleftrightarrow>
     list_all2 (\<lambda>r r'. Metric r = Metric r' \<and> same_map (Values r) (Values r')) results results'"

section \<open>The response handling, in the words of the specification\<close>

text \<open>
  The shape of an entry of a \<^verbatim>\<open>values\<close> array: a pair of a number and a string, as the
  claim has it, and what the loop asks of an entry: a number, then a string, then
  anything. The entry of the sample map that the loop stores for such an entry.
\<close>

fun pair_shape :: "'n json list \<Rightarrow> bool" where
  "pair_shape [JNumber t, JString v] = True"
| "pair_shape vals = False"

fun sample_shape :: "'n json list \<Rightarrow> bool" where
  "sample_shape (JNumber t # JString v # others) = True"
| "sample_shape vals = False"

fun sample_entry :: "'n world \<Rightarrow> 'n json list \<Rightarrow> string \<times> string" where
  "sample_entry wd (JNumber t # JString v # others) = (Sprintf_f wd t, v)"
| "sample_entry wd vals = ([], [])"

definition put :: "string gomap \<Rightarrow> string \<times> string \<Rightarrow> string gomap" where
  "put vs e = AList.update (fst e) (snd e) vs"

text \<open>
  The four conditions on a response under which the query fails: a status other than
  200, a body that does not decode, a result type other than \<^verbatim>\<open>matrix\<close>, no series.
\<close>

definition response_error :: "'n world \<Rightarrow> Response \<Rightarrow> bool" where
  "response_error wd response \<longleftrightarrow>
     StatusCode response \<noteq> 200
     \<or> (case json_Decode wd (Body response) of
          Inl err \<Rightarrow> True
        | Inr resp \<Rightarrow> Data_ResultType resp \<noteq> ''matrix'' \<or> length (Data_Result resp) = 0)"

definition returns_error :: "(error + 'a) outcome \<Rightarrow> bool" where
  "returns_error out \<longleftrightarrow> (case out of Return (Inl err) \<Rightarrow> True | _ \<Rightarrow> False)"






text \<open>
  A world for the examples: the network answers every request with \<open>reply\<close>, every body
  decodes to \<open>decoded\<close>, and the numbers of a body are integers.
\<close>

definition demo_world :: "string + Response \<Rightarrow> string + int promResponse \<Rightarrow> int world" where
  "demo_world reply decoded =
     \<lparr>url_Parse =
        (\<lambda>host. if host = [] then Inl ''empty url''
               else Inr \<lparr>Other = host, Path = [], RawQuery = []\<rparr>),
      url_String = (\<lambda>u. Other u @ ''/'' @ Path u @ ''?'' @ RawQuery u),
      url_ParseQuery = (\<lambda>raw. []),
      Values_Encode = (\<lambda>q. Join (map (\<lambda>(k, vs). k @ ''='' @ Join vs '','') q) ''&''),
      ReadFile = (\<lambda>name. Inr ''certificate''),
      NewRequest_error = (\<lambda>method url. None),
      RoundTrip = (\<lambda>caCert req. reply),
      json_Decode = (\<lambda>body. decoded),
      Sprintf_f = Sprintf_d\<rparr>"

section \<open>Properties of the metric name\<close>

lemma metricName_range_inner:
  "snd (metricName_range m out inner) =
     inner @ map (\<lambda>(k, v). Sprintf_label k v) (filter (\<lambda>(k, v). k \<noteq> ''__name__'') m)"
  by (induction m out inner rule: metricName_range.induct) simp_all

lemma metricName_range_out:
  "distinct (map fst m) \<Longrightarrow>
   fst (metricName_range m out inner) =
     (case map_of m ''__name__'' of None \<Rightarrow> out | Some v \<Rightarrow> v)"
proof (induction m out inner rule: metricName_range.induct)
  case (1 out inner)
  then show ?case by simp
next
  case (2 key "value" rest out inner)
  show ?case
  proof (cases "key = ''__name__''")
    case True
    with "2.prems" have "map_of rest ''__name__'' = None"
      by (simp add: map_of_eq_None_iff)
    with True "2.IH"(1) "2.prems" show ?thesis
      by simp
  next
    case False
    with "2.IH"(2) "2.prems" show ?thesis
      by simp
  qed
qed

lemma sort_cong_mset:
  fixes xs ys :: "'a::linorder list"
  assumes "mset xs = mset ys"
  shows "sort xs = sort ys"
  by (rule properties_for_sort) (simp_all add: assms)

lemma map_of_cong_mset:
  assumes "distinct (map fst m)" and "mset m = mset m'"
  shows "map_of m = map_of m'"
proof -
  have "mset (map fst m) = mset (map fst m')"
    using assms(2) by (metis mset_map)
  then have "distinct (map fst m')"
    using assms(1) by (metis mset_eq_imp_distinct_iff)
  moreover have "set m = set m'"
    using assms(2) by (metis mset_eq_setD)
  ultimately show ?thesis
    using assms(1) by (simp add: map_of_inject_set)
qed

lemma metricName_eq:
  assumes "distinct (map fst m)"
  shows "metricName m =
    (if m = [] then ''{}''
     else if fragments m = [] then base_name m
     else base_name m @ ''{'' @ Join (sort (fragments m)) '','' @ ''}'')"
proof -
  have "metricName_range m [] [] = (base_name m, fragments m)"
    using metricName_range_out [OF assms, of "[]" "[]"] metricName_range_inner [of m "[]" "[]"]
    by (simp add: prod_eq_iff base_name_def fragments_def)
  then show ?thesis
    by (simp add: metricName_def)
qed

lemma metricName_cong:
  assumes "distinct (map fst m)" and "mset m = mset m'"
  shows "metricName m' = metricName m"
proof -
  have d': "distinct (map fst m')"
    using assms by (metis mset_map mset_eq_imp_distinct_iff)
  have len: "(m' = []) = (m = [])"
    using assms(2) by (metis mset_zero_iff)
  have out: "base_name m' = base_name m"
    by (simp add: base_name_def map_of_cong_mset [OF assms])
  have ms: "mset (fragments m') = mset (fragments m)"
    using assms(2) by (simp add: fragments_def)
  have inner: "sort (fragments m') = sort (fragments m)"
    by (rule sort_cong_mset [OF ms])
  have empty: "(fragments m' = []) = (fragments m = [])"
    using ms by (metis mset_zero_iff)
  show ?thesis
    by (simp only: metricName_eq [OF assms(1)] metricName_eq [OF d'] len out inner empty)
qed

text \<open>
  C2. Whatever the order in which \<^verbatim>\<open>range\<close> visits the labels of a label set, the name is
  the same: the name of a map does not depend on the visit. It is the base name followed,
  when there are other labels, by their fragments in braces, sorted as strings and joined
  by commas.
\<close>

theorem metricName_order_invariant:
  assumes "wf_map m" and "same_map m m'"
  shows "metricName m' = metricName m
    \<and> metricName m =
        (if m = [] then ''{}''
         else if fragments m = [] then base_name m
         else base_name m @ ''{'' @ Join (sort (fragments m)) '','' @ ''}'')
    \<and> sorted (sort (fragments m))
    \<and> mset (sort (fragments m)) = mset (fragments m')"
proof -
  have d: "distinct (map fst m)" and p: "mset m = mset m'"
    using assms by (simp_all add: wf_map_def same_map_def)
  have "mset (fragments m) = mset (fragments m')"
    using p by (simp add: fragments_def)
  then show ?thesis
    using metricName_cong [OF d p] metricName_eq [OF d] by simp
qed

theorem metricName_order_invariant_witness:
  \<open>wf_map [(''job'', ''api''), (''__name__'', ''up''), (''instance'', ''h1'')]
   \<and> same_map [(''job'', ''api''), (''__name__'', ''up''), (''instance'', ''h1'')]
        [(''instance'', ''h1''), (''job'', ''api''), (''__name__'', ''up'')]
   \<and> metricName [(''instance'', ''h1''), (''job'', ''api''), (''__name__'', ''up'')]
       = metricName [(''job'', ''api''), (''__name__'', ''up''), (''instance'', ''h1'')]
   \<and> metricName [(''job'', ''api''), (''__name__'', ''up''), (''instance'', ''h1'')]
       = ''up{instance="h1",job="api"}''\<close>
proof -
  let ?m = "[(''job'', ''api''), (''__name__'', ''up''), (''instance'', ''h1'')]"
  let ?m' = "[(''instance'', ''h1''), (''job'', ''api''), (''__name__'', ''up'')]"
  have w: "wf_map ?m"
    by (simp add: wf_map_def)
  have s: "same_map ?m ?m'"
    by (simp add: same_map_def)
  have v: \<open>metricName ?m = ''up{instance="h1",job="api"}''\<close>
    by (simp add: metricName_def Sprintf_label_def)
  from metricName_order_invariant [OF w s] have "metricName ?m' = metricName ?m"
    by (rule conjunct1)
  with w s v show ?thesis
    by simp
qed

lemma only_name_entry:
  assumes "distinct (map fst m)" and "m \<noteq> []" and "fragments m = []"
  shows "\<exists>v. m = [(''__name__'', v)]"
proof (cases m)
  case Nil
  with assms(2) show ?thesis by simp
next
  case (Cons e rest)
  obtain k v where e: "e = (k, v)"
    by (cases e)
  have all: "\<forall>(k, v) \<in> set m. k = ''__name__''"
    using assms(3) by (auto simp: fragments_def filter_empty_conv)
  then have k: "k = ''__name__''"
    using Cons e by simp
  have "rest = []"
  proof (cases rest)
    case Nil
    then show ?thesis .
  next
    case (Cons e' rest')
    obtain k' v' where e': "e' = (k', v')"
      by (cases e')
    have "k' = ''__name__''"
      using all \<open>m = e # rest\<close> Cons e' by simp
    with k assms(1) \<open>m = e # rest\<close> Cons e e' show ?thesis
      by simp
  qed
  with Cons e k show ?thesis
    by simp
qed

lemma metricName_examples:
  \<open>metricName [] = ''{}''\<close>
  \<open>metricName [(''__name__'', ''cpu'')] = ''cpu''\<close>
  \<open>metricName [(''mode'', ''idle'')] = ''{mode="idle"}''\<close>
  by (simp_all add: metricName_def Sprintf_label_def)

text \<open>
  C6, as the code has it. The name is the empty string for exactly one label set: the one
  whose only label is \<^verbatim>\<open>__name__\<close>, with the empty string as its value. The empty label
  set has the name \<^verbatim>\<open>{}\<close>, and any other label puts braces into the name.
\<close>

theorem metricName_empty_iff:
  "wf_map m \<Longrightarrow> metricName m = [] \<longleftrightarrow> m = [(''__name__'', [])]"
proof
  assume wf: "wf_map m" and e: "metricName m = []"
  have d: "distinct (map fst m)"
    using wf by (simp add: wf_map_def)
  have ne: "m \<noteq> []"
    using e by (auto simp: metricName_def)
  have fr: "fragments m = []"
    using e ne by (simp add: metricName_eq [OF d] split: if_splits)
  then obtain v where m: "m = [(''__name__'', v)]"
    using only_name_entry [OF d ne] by blast
  then show "m = [(''__name__'', [])]"
    using e by (simp add: metricName_def)
next
  assume "m = [(''__name__'', [])]"
  then show "metricName m = []"
    by (simp add: metricName_def)
qed

theorem metricName_empty_iff_witness:
  "wf_map [(''__name__'', [])] \<and> metricName [(''__name__'', [])] = []"
  using metricName_empty_iff [of "[(''__name__'', [])]"] by (simp add: wf_map_def)

text \<open>
  C6, as the claim states it, fails: the label set with the reserved key alone, its value
  empty, has the empty name and contains the reserved key.
\<close>

theorem metricName_empty_counterexample:
  "metricName [(''__name__'', [])] = [] \<and> ''__name__'' \<in> fst ` set [(''__name__'', [])]"
  by (simp add: metricName_def)

section \<open>Properties of the resolution\<close>

lemma round_even_floor: "\<lfloor>y\<rfloor> \<le> round_even y"
  by (simp add: round_even_def Let_def)

lemma round_even_ge: "of_int N \<le> y \<Longrightarrow> N \<le> round_even y"
  using round_even_floor [of y] by (simp add: le_floor_iff [symmetric])

lemma exponent2_le:
  assumes "0 < x"
  shows "2 powi exponent2 x \<le> x"
proof -
  obtain p q where pq: "quotient_of x = (p, q)"
    by (cases "quotient_of x")
  then have q: "0 < q" and x: "x = of_int p / of_int q"
    by (simp_all add: quotient_of_denom_pos quotient_of_div)
  have p: "0 < p"
    using assms q x by (simp add: zero_less_divide_iff)
  let ?e = "bitlen p - bitlen q"
  show ?thesis
  proof (cases "2 powi ?e \<le> x")
    case True
    then show ?thesis
      by (simp add: exponent2_def pq)
  next
    case False
    then have e: "exponent2 x = ?e - 1"
      by (simp add: exponent2_def pq)
    have bp: "2 ^ nat (bitlen p - 1) \<le> p" and bq: "q < 2 ^ nat (bitlen q)"
      using bitlen_bounds [OF p] bitlen_bounds [OF q] by simp_all
    have bp1: "1 \<le> bitlen p" and bq1: "0 \<le> bitlen q"
      using p q by (simp_all add: bitlen_def floorlog_def)
    have "(2::rat) powi (?e - 1) = 2 powi (bitlen p - 1) / 2 powi bitlen q"
      by (simp add: power_int_diff)
    also have "\<dots> = 2 ^ nat (bitlen p - 1) / 2 ^ nat (bitlen q)"
      using bp1 bq1 by (simp add: power_int_def)
    also have "\<dots> \<le> of_int p / 2 ^ nat (bitlen q)"
    proof -
      have "(of_int (2 ^ nat (bitlen p - 1)) :: rat) \<le> of_int p"
        using bp by (simp only: of_int_le_iff)
      then show ?thesis
        by (simp add: divide_right_mono)
    qed
    also have "\<dots> \<le> of_int p / of_int q"
    proof -
      have "(of_int q :: rat) \<le> of_int (2 ^ nat (bitlen q))"
        using bq by (simp only: of_int_le_iff)
      then show ?thesis
        using p q by (simp add: divide_left_mono)
    qed
    finally show ?thesis
      by (simp only: e x [symmetric])
  qed
qed

lemma f64_nonneg: "0 \<le> x \<Longrightarrow> 0 \<le> f64 x"
proof -
  assume x: "0 \<le> x"
  have "0 \<le> round_even (x / 2 powi k)" for k
    by (rule round_even_ge) (use x in simp)
  then show ?thesis
    by (simp add: f64_def Let_def)
qed

lemma pow2_split:
  assumes "u \<le> int k"
  shows "(2::rat) ^ k = of_int (2 ^ nat (int k - u)) * 2 powi u"
proof -
  have "(2::rat) ^ k = 2 powi (int k)"
    by simp
  also have "\<dots> = 2 powi ((int k - u) + u)"
    by simp
  also have "\<dots> = 2 powi (int k - u) * 2 powi u"
    by (rule power_int_add) simp
  also have "(2::rat) powi (int k - u) = 2 ^ nat (int k - u)"
    using assms by (simp add: power_int_def)
  finally show ?thesis
    by simp
qed

lemma f64_ge_pow2:
  assumes "2 ^ k \<le> x"
  shows "2 ^ k \<le> f64 x"
proof -
  have x: "0 < x"
    by (rule less_le_trans [OF _ assms]) simp
  define u where "u = max (exponent2 \<bar>x\<bar> - 52) (- 1074)"
  have f: "f64 x = of_int (round_even (x / 2 powi u)) * 2 powi u"
    using x by (simp add: f64_def u_def Let_def)
  have upos: "(0::rat) < 2 powi u"
    by simp
  show ?thesis
  proof (cases "u \<le> int k")
    case True
    define N :: int where "N = 2 ^ nat (int k - u)"
    have eq: "(2::rat) ^ k = of_int N * 2 powi u"
      unfolding N_def by (rule pow2_split [OF True])
    have "of_int N \<le> x / 2 powi u"
      using assms upos by (simp add: eq pos_le_divide_eq)
    then have "N \<le> round_even (x / 2 powi u)"
      by (rule round_even_ge)
    then have "(of_int N :: rat) \<le> of_int (round_even (x / 2 powi u))"
      by (simp only: of_int_le_iff)
    then show ?thesis
      using upos by (simp add: eq f mult_right_mono)
  next
    case False
    then have u: "u = exponent2 x - 52" and ku: "int k \<le> exponent2 x"
      using x by (simp_all add: u_def max_def split: if_splits)
    have e: "2 powi exponent2 x \<le> x"
      by (rule exponent2_le [OF x])
    have "(2::rat) powi exponent2 x = 2 powi (52 + u)"
      by (simp add: u)
    also have "\<dots> = 2 powi 52 * 2 powi u"
      by (rule power_int_add) simp
    finally have split: "(2::rat) powi exponent2 x = of_int (2 ^ 52) * 2 powi u"
      by simp
    have "of_int (2 ^ 52) \<le> x / 2 powi u"
      using e upos by (simp only: split pos_le_divide_eq)
    then have "2 ^ 52 \<le> round_even (x / 2 powi u)"
      by (rule round_even_ge)
    then have "(of_int (2 ^ 52) :: rat) \<le> of_int (round_even (x / 2 powi u))"
      by (simp only: of_int_le_iff)
    then have "of_int (2 ^ 52) * 2 powi u \<le> f64 x"
      using upos by (simp only: f mult_right_mono less_imp_le)
    then have "2 powi exponent2 x \<le> f64 x"
      by (simp only: split)
    moreover have "(2::rat) ^ k \<le> 2 powi exponent2 x"
    proof -
      have "(2::rat) powi int k \<le> 2 powi exponent2 x"
        by (rule power_int_increasing [OF ku]) simp
      then show ?thesis
        by simp
    qed
    ultimately show ?thesis
      by (rule order_trans [rotated])
  qed
qed

lemma f64_42: "f64 (21 / 5) = 4728779608739021 / 1125899906842624"
  by code_simp

lemma f64_minute: "f64 (60 * 1000000000) = 60000000000"
  by code_simp

lemma Minutes_ge_16:
  assumes "30 * Minute \<le> dur"
  shows "16 \<le> Minutes dur"
proof -
  have d: "0 \<le> dur"
    using assms by (simp add: Minute_def)
  have sd: "dur sdiv Minute = dur div Minute" and sm: "dur smod Minute = dur mod Minute"
    using d by (simp_all add: signed_divide_int_def signed_modulo_int_def Minute_def sgn_if)
  have "30 \<le> dur div Minute"
    using assms by (simp add: Minute_def)
  then have "(2::rat) ^ 4 \<le> of_int (dur div Minute)"
    by simp
  then have a: "2 ^ 4 \<le> f64 (of_int (dur div Minute))"
    by (rule f64_ge_pow2)
  have "0 \<le> dur mod Minute"
    by (simp add: Minute_def)
  then have "0 \<le> f64 (of_int (dur mod Minute))"
    by (simp add: f64_nonneg)
  then have b: "0 \<le> f64 (f64 (of_int (dur mod Minute)) / f64 (60 * 1000000000))"
    by (simp add: f64_nonneg f64_minute)
  have "2 ^ 4 \<le> f64 (of_int (dur div Minute)) + f64 (f64 (of_int (dur mod Minute)) / f64 (60 * 1000000000))"
    using a b by linarith
  then have "2 ^ 4 \<le> Minutes dur"
    unfolding Minutes_def Let_def sd sm by (rule f64_ge_pow2)
  then show ?thesis
    by simp
qed

lemma quotient_ge_2:
  assumes "30 * Minute \<le> dur"
  shows "2 \<le> f64 (Minutes dur / f64 4.2)"
proof -
  have "16 \<le> Minutes dur"
    by (rule Minutes_ge_16 [OF assms])
  then have "(2::rat) ^ 1 \<le> Minutes dur / f64 4.2"
    by (simp add: f64_42)
  then have "2 ^ 1 \<le> f64 (Minutes dur / f64 4.2)"
    by (rule f64_ge_pow2)
  then show ?thesis
    by simp
qed

lemma pow2_less_imp: "(2::rat) powi a < 2 powi b \<Longrightarrow> a < b"
proof (rule ccontr)
  assume l: "(2::rat) powi a < 2 powi b" and "\<not> a < b"
  then have "b \<le> a"
    by simp
  then have "(2::rat) powi b \<le> 2 powi a"
    by (rule power_int_increasing) simp
  with l show False
    by simp
qed

lemma round_even_of_int: "round_even (of_int N) = N"
  by (simp add: round_even_def)

lemma round_even_error: "\<bar>of_int (round_even z) - z\<bar> \<le> 1 / 2"
proof -
  have "of_int \<lfloor>z\<rfloor> \<le> z" and "z < of_int \<lfloor>z\<rfloor> + 1"
    by linarith+
  then show ?thesis
    unfolding round_even_def Let_def by (auto simp: abs_le_iff)
qed

lemma exponent2_gt:
  assumes "0 < x"
  shows "x < 2 powi (exponent2 x + 1)"
proof -
  obtain p q where pq: "quotient_of x = (p, q)"
    by (cases "quotient_of x")
  then have q: "0 < q" and x: "x = of_int p / of_int q"
    by (simp_all add: quotient_of_denom_pos quotient_of_div)
  have p: "0 < p"
    using assms q x by (simp add: zero_less_divide_iff)
  let ?e = "bitlen p - bitlen q"
  show ?thesis
  proof (cases "2 powi ?e \<le> x")
    case False
    then have e: "exponent2 x = ?e - 1"
      by (simp add: exponent2_def pq)
    from False show ?thesis
      by (simp add: e)
  next
    case True
    then have e: "exponent2 x = ?e"
      by (simp add: exponent2_def pq)
    have bp: "p < 2 ^ nat (bitlen p)" and bq: "2 ^ nat (bitlen q - 1) \<le> q"
      using bitlen_bounds [OF p] bitlen_bounds [OF q] by simp_all
    have bp1: "0 \<le> bitlen p" and bq1: "1 \<le> bitlen q"
      using p q by (simp_all add: bitlen_def floorlog_def)
    have "of_int p / of_int q \<le> of_int p / (2 ^ nat (bitlen q - 1) :: rat)"
    proof -
      have "(of_int (2 ^ nat (bitlen q - 1)) :: rat) \<le> of_int q"
        using bq by (simp only: of_int_le_iff)
      then have "(2 ^ nat (bitlen q - 1) :: rat) \<le> of_int q"
        by simp
      then show ?thesis
        using p by (intro frac_le) simp_all
    qed
    also have "\<dots> < 2 ^ nat (bitlen p) / 2 ^ nat (bitlen q - 1)"
    proof -
      have "(of_int p :: rat) < of_int (2 ^ nat (bitlen p))"
        using bp by (simp only: of_int_less_iff)
      then show ?thesis
        by (simp add: divide_strict_right_mono)
    qed
    also have "\<dots> = 2 powi bitlen p / 2 powi (bitlen q - 1)"
      using bp1 bq1 by (simp add: power_int_def)
    also have "\<dots> = 2 powi (bitlen p - (bitlen q - 1))"
      by (rule power_int_diff [symmetric]) simp
    also have "bitlen p - (bitlen q - 1) = ?e + 1"
      by simp
    finally show ?thesis
      by (simp only: e x [symmetric])
  qed
qed

lemma f64_unfold:
  assumes "0 < x"
  shows "f64 x = of_int (round_even (x / 2 powi max (exponent2 x - 52) (- 1074)))
    * 2 powi max (exponent2 x - 52) (- 1074)"
  using assms by (simp add: f64_def Let_def)

lemma f64_error:
  assumes "0 < x" and "x < 2 ^ k" and "int k \<le> 1022"
  shows "\<bar>f64 x - x\<bar> \<le> 2 powi (int k - 54)"
proof -
  define u where "u = max (exponent2 x - 52) (- 1074)"
  have upos: "(0::rat) < 2 powi u"
    by simp
  have "(2::rat) powi exponent2 x \<le> x"
    by (rule exponent2_le [OF assms(1)])
  also have "x < 2 powi int k"
    using assms(2) by simp
  finally have "exponent2 x < int k"
    by (rule pow2_less_imp)
  then have uk: "u \<le> int k - 53"
    using assms(3) by (simp add: u_def)
  have "f64 x - x = (of_int (round_even (x / 2 powi u)) - x / 2 powi u) * 2 powi u"
    using upos by (simp add: f64_unfold [OF assms(1)] u_def [symmetric] left_diff_distrib)
  then have "\<bar>f64 x - x\<bar> = \<bar>of_int (round_even (x / 2 powi u)) - x / 2 powi u\<bar> * 2 powi u"
    by (simp only: abs_mult) simp
  also have "\<dots> \<le> 1 / 2 * 2 powi u"
    by (rule mult_right_mono [OF round_even_error]) simp
  also have "\<dots> \<le> 1 / 2 * 2 powi (int k - 53)"
    using uk by (simp add: power_int_increasing)
  also have "\<dots> = 2 powi (int k - 54)"
    by (simp add: power_int_diff)
  finally show ?thesis .
qed


lemma f64_int_exact:
  assumes "0 \<le> n" and "n < 2 ^ 53"
  shows "f64 (of_int n) = of_int n"
proof (cases "n = 0")
  case True
  then show ?thesis
    by (simp add: f64_def)
next
  case False
  with assms(1) have x: "(0::rat) < of_int n"
    by simp
  define u where "u = max (exponent2 (of_int n) - 52) (- 1074)"
  have "(2::rat) powi exponent2 (of_int n) \<le> of_int n"
    by (rule exponent2_le [OF x])
  also have "(of_int n :: rat) < of_int (2 ^ 53)"
    using assms(2) by (simp only: of_int_less_iff)
  also have "(of_int (2 ^ 53) :: rat) = 2 powi 53"
    by simp
  finally have "exponent2 (of_int n) < 53"
    by (rule pow2_less_imp)
  then have u: "u \<le> 0"
    by (simp add: u_def)
  define w where "w = nat (- u)"
  have uw: "u = - int w"
    using u by (simp add: w_def)
  have p: "(2::rat) powi u = inverse (2 ^ w)"
    by (simp add: uw power_int_minus)
  have "of_int n / (2::rat) powi u = of_int (n * 2 ^ w)"
    by (simp add: p field_simps)
  then have "round_even (of_int n / 2 powi u) = n * 2 ^ w"
    by (simp only: round_even_of_int)
  then show ?thesis
    by (simp add: f64_unfold [OF x] u_def [symmetric] p)
qed

lemma Minutes_whole:
  assumes "0 \<le> m" and "m < 2 ^ 53"
  shows "Minutes (m * Minute) = of_int m"
proof -
  have "m * Minute sdiv Minute = m" and "m * Minute smod Minute = 0"
    using assms(1) by (simp_all add: signed_divide_int_def signed_modulo_int_def Minute_def sgn_if)
  moreover have "f64 0 = 0"
    by (simp add: f64_def)
  ultimately show ?thesis
    by (simp add: Minutes_def f64_int_exact [OF assms])
qed


lemma round_even_near:
  assumes "z \<le> of_int N" and "of_int N - z < 1 / 2"
  shows "round_even z = N"
proof (cases "z = of_int N")
  case True
  then show ?thesis
    by (simp add: round_even_of_int)
next
  case False
  with assms have "\<lfloor>z\<rfloor> = N - 1"
    by (intro floor_unique) simp_all
  with assms show ?thesis
    by (simp add: round_even_def Let_def)
qed

lemma quotient_gap:
  fixes m :: int
  defines "y \<equiv> of_int m / (4728779608739021 / 1125899906842624 :: rat)"
  shows "of_int (5 * m) / 21 - y = y / (21 * 2 ^ 50)"
  by (simp add: y_def field_simps)

lemma quotient_floor_rest:
  fixes m :: int
  assumes "1 \<le> m" and "m < 2 ^ 28" and "(5 * m) mod 21 \<noteq> 0"
  shows "\<lfloor>f64 (of_int m / (4728779608739021 / 1125899906842624))\<rfloor> = (5 * m) div 21"
proof -
  define y :: rat where "y = of_int m / (4728779608739021 / 1125899906842624)"
  define k where "k = (5 * m) div 21"
  define r where "r = (5 * m) mod 21"
  have "(of_int 1 :: rat) \<le> of_int m" and "(of_int m :: rat) < of_int (2 ^ 28)"
    using assms(1,2) by (simp_all only: of_int_le_iff of_int_less_iff)
  then have m: "(1::rat) \<le> of_int m" "(of_int m :: rat) < 2 ^ 28"
    by simp_all
  have "0 \<le> r" and "r < 21"
    by (simp_all add: r_def)
  with assms(3) have r: "1 \<le> r" "r \<le> 20"
    by (simp_all add: r_def)
  have "5 * m = 21 * k + r"
    by (simp add: k_def r_def)
  then have "(of_int (5 * m) :: rat) = of_int (21 * k + r)"
    by simp
  then have q: "(of_int (5 * m) :: rat) / 21 = of_int k + of_int r / 21"
    by simp
  have rr: "(1::rat) \<le> of_int r" "(of_int r :: rat) \<le> 20"
    using r by simp_all
  have ypos: "0 < y" and yub: "y < 2 ^ 26"
    using m by (simp_all add: y_def field_simps)
  have gap: "of_int (5 * m) / 21 - y = y / (21 * 2 ^ 50)"
    unfolding y_def by (rule quotient_gap)
  have "0 \<le> y / (21 * 2 ^ 50)" and "y / (21 * 2 ^ 50) \<le> 2 powi (- 28)"
    using ypos yub by (simp_all add: field_simps power_int_minus)
  then have gap1: "0 \<le> of_int (5 * m) / 21 - y"
    and gap2: "of_int (5 * m) / 21 - y \<le> 2 powi (- 28)"
    by (simp_all only: gap)
  have "\<bar>f64 y - y\<bar> \<le> 2 powi (int 26 - 54)"
    by (rule f64_error [OF ypos yub]) simp
  then have err: "\<bar>f64 y - y\<bar> \<le> 2 powi (- 28)"
    by simp
  have p: "(2::rat) powi (- 28) = 1 / 268435456"
    by (simp add: power_int_minus)
  have e1: "y - 1 / 268435456 \<le> f64 y" "f64 y \<le> y + 1 / 268435456"
    using err unfolding p by linarith+
  have g: "of_int k + of_int r / 21 - 1 / 268435456 \<le> y" "y \<le> of_int k + of_int r / 21"
    using gap1 gap2 unfolding q p by linarith+
  have r1: "(1::rat) / 21 \<le> of_int r / 21" "(of_int r :: rat) / 21 \<le> 20 / 21"
    using rr by simp_all
  have "of_int k \<le> f64 y" and "f64 y < of_int k + 1"
    using e1 g r1 by linarith+
  then have "\<lfloor>f64 y\<rfloor> = k"
    by (intro floor_unique)
  then show ?thesis
    by (simp only: y_def k_def)
qed



lemma quotient_floor_multiple:
  fixes m :: int
  assumes "1 \<le> m" and "m < 2 ^ 28" and "(5 * m) mod 21 = 0"
  shows "f64 (of_int m / (4728779608739021 / 1125899906842624)) = of_int ((5 * m) div 21)"
proof -
  define y :: rat where "y = of_int m / (4728779608739021 / 1125899906842624)"
  define k where "k = (5 * m) div 21"
  define e where "e = exponent2 y"
  define E :: rat where "E = 2 powi e"
  have "(of_int 1 :: rat) \<le> of_int m" and "(of_int m :: rat) < of_int (2 ^ 28)"
    using assms(1,2) by (simp_all only: of_int_le_iff of_int_less_iff)
  then have m: "(1::rat) \<le> of_int m" "(of_int m :: rat) < 2 ^ 28"
    by simp_all
  have "5 * m = 21 * k"
    using assms(3) mult_div_mod_eq [of 21 "5 * m"] by (simp add: k_def)
  then have k1: "1 \<le> k"
    using assms(1) by linarith
  with \<open>5 * m = 21 * k\<close> have km: "5 \<le> m"
    by linarith
  have "(of_int (5 * m) :: rat) = of_int (21 * k)"
    using \<open>5 * m = 21 * k\<close> by simp
  then have q: "(of_int (5 * m) :: rat) / 21 = of_int k"
    by simp
  have "(of_int 5 :: rat) \<le> of_int m"
    using km by (simp only: of_int_le_iff)
  then have y1: "1 < y"
    by (simp add: y_def field_simps)
  have ypos: "0 < y" and yub: "y < 2 ^ 26"
    using m by (simp_all add: y_def field_simps)
  have gap: "of_int k - y = y / (21 * 2 ^ 50)"
    using quotient_gap [of m] by (simp only: q y_def)
  have lo: "E \<le> y" and hi: "y < 2 * E"
    using exponent2_le [OF ypos] exponent2_gt [OF ypos]
    by (simp_all add: E_def e_def power_int_add)
  have Epos: "0 < E"
    by (simp add: E_def)
  have "(2::rat) powi 0 < 2 powi (e + 1)"
    using y1 exponent2_gt [OF ypos] by (simp add: e_def)
  then have e0: "0 \<le> e"
    using pow2_less_imp [of 0 "e + 1"] by simp
  have "(2::rat) powi e < 2 powi 26"
    using lo yub by (simp add: E_def)
  then have e26: "e < 26"
    by (rule pow2_less_imp)
  define w where "w = nat (52 - e)"
  have we: "int w = 52 - e"
    using e26 by (simp add: w_def)
  have "(2::rat) ^ w = 2 powi int w"
    by simp
  also have "\<dots> = 2 powi (52 - e)"
    by (simp only: we)
  also have "\<dots> = 2 powi 52 / 2 powi e"
    by (rule power_int_diff) simp
  finally have pw: "(2::rat) ^ w = 2 ^ 52 / E"
    by (simp add: E_def)
  have "(2::rat) powi (e - 52) = 2 powi e / 2 powi 52"
    by (rule power_int_diff) simp
  then have ulp: "(2::rat) powi (e - 52) = E / 2 ^ 52"
    by (simp add: E_def)
  have u: "max (exponent2 y - 52) (- 1074) = e - 52"
    using e0 by (simp add: e_def)
  define N where "N = k * 2 ^ w"
  have N: "(of_int N :: rat) = of_int k * 2 ^ 52 / E"
    by (simp add: N_def pw)
  have z: "y / (E / 2 ^ 52) = y * 2 ^ 52 / E"
    by simp
  have d: "of_int N - y * 2 ^ 52 / E = (of_int k - y) * 2 ^ 52 / E"
    by (simp only: N left_diff_distrib diff_divide_distrib)
  have "y / (21 * 2 ^ 50) * 2 ^ 52 / E = 4 * y / (21 * E)"
    by simp
  then have d2: "(of_int k - y) * 2 ^ 52 / E = 4 * y / (21 * E)"
    by (simp only: gap)
  have b: "0 \<le> 4 * y / (21 * E)" "4 * y / (21 * E) < 1 / 2"
    using Epos ypos hi by (simp_all add: field_simps)
  have dd: "of_int N - y * 2 ^ 52 / E = 4 * y / (21 * E)"
    by (simp only: d d2)
  have "y * 2 ^ 52 / E \<le> of_int N" and "of_int N - y * 2 ^ 52 / E < 1 / 2"
    using b dd by linarith+
  then have "round_even (y * 2 ^ 52 / E) = N"
    by (rule round_even_near)
  then have "f64 y = of_int N * (E / 2 ^ 52)"
    by (simp only: f64_unfold [OF ypos] u ulp z)
  also have "\<dots> = of_int k"
    using Epos by (simp add: N)
  finally show ?thesis
    by (simp only: y_def k_def)
qed



lemma spec_quotient: "\<lfloor>(of_int (m * Minute) / of_int Minute :: rat) / 4.2\<rfloor> = (5 * m) div 21"
proof -
  have "(of_int (m * Minute) / of_int Minute :: rat) / 4.2 = of_int (5 * m) / of_int 21"
    by (simp add: Minute_def)
  then show ?thesis
    by (simp only: floor_divide_of_int_eq)
qed

lemma steps_whole_minutes:
  assumes "0 \<le> m" and "m * Minute < 2 ^ 63"
  shows "steps step (m * Minute) = spec_steps step (m * Minute)"
proof (cases "0 < step \<or> m * Minute < 30 * Minute")
  case True
  then show ?thesis
    by (auto simp: steps_def spec_steps_def)
next
  case False
  then have big: "30 * Minute \<le> m * Minute"
    by simp
  then have m30: "30 \<le> m"
    by (simp add: Minute_def)
  have m28: "m < 2 ^ 28"
    using assms(2) by (simp add: Minute_def)
  have m1: "1 \<le> m" and m53: "m < 2 ^ 53"
    using m30 m28 by simp_all
  have mins: "Minutes (m * Minute) = of_int m"
    by (rule Minutes_whole [OF assms(1) m53])
  have c: "f64 4.2 = 4728779608739021 / 1125899906842624"
    using f64_42 by simp
  have "\<lfloor>f64 (of_int m / (4728779608739021 / 1125899906842624))\<rfloor> = (5 * m) div 21"
  proof (cases "(5 * m) mod 21 = 0")
    case True
    show ?thesis
      by (simp only: quotient_floor_multiple [OF m1 m28 True] floor_of_int)
  next
    case False
    then show ?thesis
      by (rule quotient_floor_rest [OF m1 m28])
  qed
  then have fl: "\<lfloor>f64 (Minutes (m * Minute) / f64 4.2)\<rfloor> = (5 * m) div 21"
    by (simp only: mins c)
  have "2 \<le> f64 (Minutes (m * Minute) / f64 4.2)"
    by (rule quotient_ge_2 [OF big])
  then have "go_int (f64 (Minutes (m * Minute) / f64 4.2)) = \<lfloor>f64 (Minutes (m * Minute) / f64 4.2)\<rfloor>"
    by (simp add: go_int_def)
  then have g: "go_int (f64 (Minutes (m * Minute) / f64 4.2)) = (5 * m) div 21"
    by (simp only: fl)
  have br: "\<not> step > 0" "\<not> m * Minute < 15 * Minute" "\<not> m * Minute < 30 * Minute"
    using False m30 by (simp_all add: Minute_def)
  have "steps step (m * Minute) = (5 * m) div 21"
    by (simp only: steps_def br if_False g)
  moreover have "spec_steps step (m * Minute) = (5 * m) div 21"
    by (simp only: spec_steps_def br if_False spec_quotient)
  ultimately show ?thesis
    by simp
qed

lemma steps_trace:
  "Minutes 2268000000000 = 2659938529915699 / 70368744177664"
  "f64 (Minutes 2268000000000 / f64 4.2) = 5066549580791807 / 562949953421312"
  by code_simp+

text \<open>
  C3, as the code has it. The policy is the first match of: an explicit step above zero,
  returned unchanged; a window below 15 minutes, 1; a window below 30 minutes, 3;
  otherwise the integer below the quotient of the window's minutes by 4.2, where the
  minutes and the quotient are the \<^verbatim>\<open>float64\<close> numbers the code computes, each operation
  rounded. For a window of a whole number of minutes this is the integer below the exact
  quotient, as the specification has it. A step of 5 gives 5 for any window, 10 minutes
  give 1, 20 minutes give 3 and 120 minutes give 28.
\<close>

theorem steps_policy:
  "steps step dur =
     (if 0 < step then step
      else if dur < 15 * Minute then 1
      else if dur < 30 * Minute then 3
      else \<lfloor>f64 (Minutes dur / f64 4.2)\<rfloor>)
   \<and> (0 \<le> m \<and> m * Minute < 2 ^ 63 \<longrightarrow>
        steps step (m * Minute) = spec_steps step (m * Minute))
   \<and> steps 5 dur = 5
   \<and> steps 0 (10 * Minute) = 1
   \<and> steps 0 (20 * Minute) = 3
   \<and> steps 0 (120 * Minute) = 28"
proof -
  have "steps 0 (120 * Minute) = 28"
    by code_simp
  moreover have "steps 0 (10 * Minute) = 1" "steps 0 (20 * Minute) = 3"
    by (simp_all add: steps_def Minute_def)
  moreover have "steps 5 dur = 5"
    by (simp add: steps_def)
  moreover have "go_int (f64 (Minutes dur / f64 4.2)) = \<lfloor>f64 (Minutes dur / f64 4.2)\<rfloor>"
    if "30 * Minute \<le> dur"
    using quotient_ge_2 [OF that] by (simp add: go_int_def)
  moreover have "steps step (m * Minute) = spec_steps step (m * Minute)"
    if "0 \<le> m \<and> m * Minute < 2 ^ 63"
    using that by (simp add: steps_whole_minutes)
  ultimately show ?thesis
    by (simp add: steps_def)
qed

theorem steps_policy_witness:
  "(0::int) \<le> 120 \<and> 120 * Minute < 2 ^ 63
   \<and> steps 0 (120 * Minute) = spec_steps 0 (120 * Minute)
   \<and> spec_steps 0 (120 * Minute) = 28"
proof -
  have b: "(0::int) \<le> 120 \<and> 120 * Minute < 2 ^ 63"
    by (simp add: Minute_def)
  have v: "spec_steps 0 (120 * Minute) = 28"
    by code_simp
  from steps_policy [of 0 "120 * Minute" 120] b
  have "steps 0 (120 * Minute) = spec_steps 0 (120 * Minute)"
    by blast
  with b v show ?thesis
    by blast
qed

text \<open>
  C3, as the claim states it, fails: for a window of 37 minutes and 48 seconds the
  quotient of 37.8 by 4.2 is 9, and the code returns 8. The \<^verbatim>\<open>float64\<close> nearest to 37.8 lies
  below it, the one nearest to 4.2 above it, and their quotient rounds to the \<^verbatim>\<open>float64\<close>
  just below 9 (the values are in \<open>steps_trace\<close>).
\<close>

theorem steps_counterexample:
  "steps 0 2268000000000 = 8 \<and> spec_steps 0 2268000000000 = 9"
  by code_simp

text \<open>
  C7. Whatever the explicit step and the window, the resolution is at least 1: in the last
  branch the window is 30 minutes or more, so the quotient is 2 or more.
\<close>

theorem steps_positive: "1 \<le> steps step dur"
proof -
  consider "0 < step" | "step \<le> 0" "dur < 15 * Minute"
    | "step \<le> 0" "15 * Minute \<le> dur" "dur < 30 * Minute"
    | "step \<le> 0" "30 * Minute \<le> dur"
    by linarith
  then show ?thesis
  proof cases
    case 4
    have q: "2 \<le> f64 (Minutes dur / f64 4.2)"
      by (rule quotient_ge_2 [OF 4(2)])
    then have "go_int (f64 (Minutes dur / f64 4.2)) = \<lfloor>f64 (Minutes dur / f64 4.2)\<rfloor>"
      by (simp add: go_int_def)
    moreover have "1 \<le> \<lfloor>f64 (Minutes dur / f64 4.2)\<rfloor>"
      using q by (simp add: le_floor_iff)
    ultimately show ?thesis
      using 4 by (simp add: steps_def)
  qed (simp_all add: steps_def)
qed

section \<open>Properties of the renderers\<close>

lemma timesMap_range_keys:
  "fst ` set (timesMap_range m timesMap) = fst ` set timesMap \<union> fst ` set m"
  by (induction m timesMap rule: timesMap_range.induct) (auto simp: dom_update)

lemma timesMap_range_distinct:
  "distinct (map fst timesMap) \<Longrightarrow> distinct (map fst (timesMap_range m timesMap))"
  by (induction m timesMap rule: timesMap_range.induct) (simp_all add: distinct_update)

lemma timesMap_results_keys:
  "fst ` set (timesMap_results results timesMap) =
     fst ` set timesMap \<union> (\<Union>r \<in> set results. fst ` set (Values r))"
  by (induction results timesMap rule: timesMap_results.induct)
     (auto simp: timesMap_range_keys)

lemma timesMap_results_distinct:
  "distinct (map fst timesMap) \<Longrightarrow> distinct (map fst (timesMap_results results timesMap))"
  by (induction results timesMap rule: timesMap_results.induct)
     (simp_all add: timesMap_range_distinct)

lemma times_range_eq: "times_range m tms = tms @ map fst m"
  by (induction m tms rule: times_range.induct) simp_all

lemma sorted_times_axis:
  assumes "is_visit visit"
  shows "sorted_times visit results = axis results"
proof -
  let ?tm = "timesMap_results results []"
  let ?keys = "remdups (concat (map (\<lambda>r. map fst (Values r)) results))"
  have "mset (visit ?tm) = mset ?tm"
    using assms by (simp add: is_visit_def)
  then have "mset (map fst (visit ?tm)) = mset (map fst ?tm)"
    by (metis mset_map)
  also have "\<dots> = mset ?keys"
  proof (rule set_eq_iff_mset_eq_distinct [THEN iffD1])
    show "distinct (map fst ?tm)"
      by (rule timesMap_results_distinct) simp
    show "distinct ?keys"
      by simp
    show "set (map fst ?tm) = set ?keys"
      using timesMap_results_keys [of results "[]"] by auto
  qed
  finally have "sort (map fst (visit ?tm)) = sort ?keys"
    by (rule sort_cong_mset)
  then show ?thesis
    by (simp add: sorted_times_def axis_def times_range_eq)
qed



lemma csv_fields_eq:
  "csv_fields w results tm = w @ concat (map (\<lambda>r. '','' @ cell [] r tm) results)"
  by (induction w results tm rule: csv_fields.induct) (simp_all add: cell_def map_index_def)

lemma csv_rows_eq:
  "csv_rows uxdate w tms results = w @ concat (map (csv_line uxdate results) tms)"
  by (induction uxdate w tms results rule: csv_rows.induct)
     (simp_all add: csv_fields_eq csv_line_def)

lemma matplotlib_vals_eq:
  "matplotlib_vals result tms vals = vals @ map (cell ''None'' result) tms"
  by (induction result tms vals rule: matplotlib_vals.induct)
     (simp_all add: cell_def split: option.splits)

lemma matplotlib_series_eq:
  "matplotlib_series w i results tms =
     w @ concat (map (matplotlib_lines tms) (enumerate i results))"
  by (induction w i results tms rule: matplotlib_series.induct)
     (simp_all add: matplotlib_vals_eq matplotlib_lines_def Let_def)

lemma csv_header_eq: "csv_header results header = header @ map Metric results"
  by (induction results header rule: csv_header.induct) simp_all

lemma legend_labels_eq:
  "legend_labels results labels = labels @ map (\<lambda>r. [CHR 0x27] @ Metric r @ [CHR 0x27]) results"
  by (induction results labels rule: legend_labels.induct) simp_all

lemma csvWriter_eq:
  assumes "is_visit visit"
  shows "csvWriter visit uxdate w results
    = (w @ concat (map (csv_line uxdate results) (axis results)), None)"
proof (cases "results = []")
  case True
  then show ?thesis
    by (simp add: csvWriter_def axis_def)
next
  case False
  then show ?thesis
    by (simp add: csvWriter_def csv_rows_eq sorted_times_axis [OF assms])
qed

lemma matplotlibWriter_eq:
  assumes "is_visit visit"
  shows "matplotlibWriter visit w results
    = (if results = [] then w
       else w @ ''t = ['' @ Join (axis results) '', '' @ '']'' @ newline
         @ concat (map (matplotlib_lines (axis results)) (enumerate 0 results)), None)"
  by (simp add: matplotlibWriter_def matplotlib_series_eq sorted_times_axis [OF assms] Let_def)

lemma csvHeaderWriter_eq:
  "csvHeaderWriter w results
    = (if results = [] then w else w @ Join (''Time'' # map Metric results) '','' @ newline, None)"
  by (simp add: csvHeaderWriter_def csv_header_eq)

lemma matplotlibLegendWriter_eq:
  \<open>matplotlibLegendWriter w results
    = (w @ ''plot.legend(['' @ Join (map (\<lambda>r. [CHR 0x27] @ Metric r @ [CHR 0x27]) results) '', ''
         @ ''], loc='upper left')'' @ newline, None)\<close>
  by (simp add: matplotlibLegendWriter_def legend_labels_eq)

lemma axis_sorted_list_of_set:
  "axis results = sorted_list_of_set (\<Union>r \<in> set results. fst ` set (Values r))"
proof -
  have "(\<Union>r \<in> set results. fst ` set (Values r))
      = set (concat (map (\<lambda>r. map fst (Values r)) results))"
    by auto
  then show ?thesis
    by (simp only: axis_def sorted_list_of_set_sort_remdups)
qed

lemma same_series_keys:
  "list_all2 (\<lambda>r r'. Metric r = Metric r' \<and> same_map (Values r) (Values r')) rs rs' \<Longrightarrow>
   (\<Union>r \<in> set rs. fst ` set (Values r)) = (\<Union>r \<in> set rs'. fst ` set (Values r))"
proof (induction rule: list_all2_induct)
  case Nil
  then show ?case by simp
next
  case (Cons r rs r' rs')
  from Cons.hyps(1) have "set (Values r) = set (Values r')"
    by (auto simp: same_map_def dest: mset_eq_setD)
  with Cons.IH show ?case
    by simp
qed

lemma cell_cong:
  assumes "wf_map (Values r)" and "same_map (Values r) (Values r')"
  shows "cell absent r tm = cell absent r' tm"
  using map_of_cong_mset [of "Values r" "Values r'"] assms
  by (simp add: cell_def wf_map_def same_map_def)

lemma same_series_cells:
  "list_all2 (\<lambda>r r'. Metric r = Metric r' \<and> same_map (Values r) (Values r')) rs rs' \<Longrightarrow>
   list_all (\<lambda>r. wf_map (Values r)) rs \<Longrightarrow>
   map (\<lambda>r. '','' @ cell [] r tm) rs = map (\<lambda>r. '','' @ cell [] r tm) rs'"
  by (induction rule: list_all2_induct) (simp_all add: cell_cong)

lemma same_series_lines:
  "list_all2 (\<lambda>r r'. Metric r = Metric r' \<and> same_map (Values r) (Values r')) rs rs' \<Longrightarrow>
   list_all (\<lambda>r. wf_map (Values r)) rs \<Longrightarrow>
   map (matplotlib_lines tms) (enumerate i rs) = map (matplotlib_lines tms) (enumerate i rs')"
proof (induction arbitrary: i rule: list_all2_induct)
  case Nil
  then show ?case by simp
next
  case (Cons r rs r' rs')
  from Cons.hyps(1) Cons.prems have "map (cell ''None'' r) tms = map (cell ''None'' r') tms"
    by (simp add: cell_cong)
  then have head: "matplotlib_lines tms (i, r) = matplotlib_lines tms (i, r')"
    by (simp only: matplotlib_lines_def fst_conv snd_conv)
  have tail: "map (matplotlib_lines tms) (enumerate (Suc i) rs)
      = map (matplotlib_lines tms) (enumerate (Suc i) rs')"
    by (rule Cons.IH) (use Cons.prems in simp)
  show ?case
    by (simp add: head tail)
qed

lemma same_series_names:
  "list_all2 (\<lambda>r r'. Metric r = Metric r' \<and> same_map (Values r) (Values r')) rs rs' \<Longrightarrow>
   map Metric rs = map Metric rs'"
  by (induction rule: list_all2_induct) simp_all












text \<open>
  C9. A renderer run twice on the same series set writes the same bytes and returns the
  same error, whatever the two runs' orders of visit: of the entries of each sample map
  and of the keys of \<^verbatim>\<open>timesMap\<close>.
\<close>

theorem rendering_deterministic:
  assumes "wf_results results" and "same_series results results'"
    and "is_visit visit" and "is_visit visit'"
  shows "csvWriter visit uxdate w results = csvWriter visit' uxdate w results'
    \<and> csvHeaderWriter w results = csvHeaderWriter w results'
    \<and> matplotlibWriter visit w results = matplotlibWriter visit' w results'
    \<and> matplotlibLegendWriter w results = matplotlibLegendWriter w results'"
proof -
  note s = assms(2) [unfolded same_series_def]
  note wf = assms(1) [unfolded wf_results_def]
  have ax: "axis results' = axis results"
    by (simp only: axis_sorted_list_of_set same_series_keys [OF s])
  have names: "map Metric results' = map Metric results"
    by (rule same_series_names [OF s, symmetric])
  have empty: "(results' = []) = (results = [])"
    using s by (auto dest: list_all2_lengthD)
  have "csv_line uxdate results' tm = csv_line uxdate results tm" for tm
    by (simp only: csv_line_def same_series_cells [OF s wf])
  then have csv: "csv_line uxdate results' = csv_line uxdate results"
    by (rule ext)
  have mpl: "map (matplotlib_lines (axis results)) (enumerate 0 results')
      = map (matplotlib_lines (axis results)) (enumerate 0 results)"
    by (rule same_series_lines [OF s wf, symmetric])
  have q: "map (\<lambda>r. [CHR 0x27] @ Metric r @ [CHR 0x27]) rs
      = map (\<lambda>n. [CHR 0x27] @ n @ [CHR 0x27]) (map Metric rs)" for rs :: "Result list"
    by (simp only: map_map comp_def)
  have legend: "map (\<lambda>r. [CHR 0x27] @ Metric r @ [CHR 0x27]) results'
      = map (\<lambda>r. [CHR 0x27] @ Metric r @ [CHR 0x27]) results"
    by (simp only: q names)
  show ?thesis
    by (simp only: csvWriter_eq [OF assms(3)] csvWriter_eq [OF assms(4)]
        matplotlibWriter_eq [OF assms(3)] matplotlibWriter_eq [OF assms(4)]
        csvHeaderWriter_eq matplotlibLegendWriter_eq ax names empty csv mpl legend simp_thms)
qed

theorem rendering_deterministic_witness:
  "wf_results [\<lparr>Metric = ''a'', Values = [(''20'', ''2''), (''10'', ''1'')]\<rparr>]
   \<and> same_series [\<lparr>Metric = ''a'', Values = [(''20'', ''2''), (''10'', ''1'')]\<rparr>]
        [\<lparr>Metric = ''a'', Values = [(''10'', ''1''), (''20'', ''2'')]\<rparr>]
   \<and> is_visit (rev :: bool gomap \<Rightarrow> bool gomap)
   \<and> is_visit (\<lambda>m :: bool gomap. m)
   \<and> csvWriter rev (\<lambda>tm. tm) [] [\<lparr>Metric = ''a'', Values = [(''20'', ''2''), (''10'', ''1'')]\<rparr>]
       = csvWriter (\<lambda>m. m) (\<lambda>tm. tm) [] [\<lparr>Metric = ''a'', Values = [(''10'', ''1''), (''20'', ''2'')]\<rparr>]
   \<and> matplotlibWriter rev [] [\<lparr>Metric = ''a'', Values = [(''20'', ''2''), (''10'', ''1'')]\<rparr>]
       = matplotlibWriter (\<lambda>m. m) [] [\<lparr>Metric = ''a'', Values = [(''10'', ''1''), (''20'', ''2'')]\<rparr>]"
proof -
  let ?rs = "[\<lparr>Metric = ''a'', Values = [(''20'', ''2''), (''10'', ''1'')]\<rparr>]"
  let ?rs' = "[\<lparr>Metric = ''a'', Values = [(''10'', ''1''), (''20'', ''2'')]\<rparr>]"
  have wf: "wf_results ?rs"
    by (simp add: wf_results_def wf_map_def)
  have s: "same_series ?rs ?rs'"
    by (simp add: same_series_def same_map_def)
  have v: "is_visit (rev :: bool gomap \<Rightarrow> bool gomap)" and v': "is_visit (\<lambda>m :: bool gomap. m)"
    by (simp_all add: is_visit_def)
  show ?thesis
    using wf s v v' rendering_deterministic [OF wf s v v', of "\<lambda>tm. tm" "[]"] by blast
qed

text \<open>
  C5 on the code. On the empty series set csvWriter, csvHeaderWriter and matplotlibWriter
  return at their first line and write nothing; matplotlibLegendWriter has no such line
  and writes a legend statement with an empty list.
\<close>

theorem renderers_on_empty:
  \<open>csvWriter visit uxdate w [] = (w, None)
   \<and> csvHeaderWriter w [] = (w, None)
   \<and> matplotlibWriter visit w [] = (w, None)
   \<and> matplotlibLegendWriter w [] = (w @ ''plot.legend([], loc='upper left')'' @ newline, None)\<close>
  by (simp add: csvWriter_def csvHeaderWriter_def matplotlibWriter_def matplotlibLegendWriter_def)

section \<open>Properties of the range query\<close>

lemma sample_shapeE:
  assumes "sample_shape vals"
  obtains t v others where "vals = JNumber t # JString v # others"
  using assms by (cases vals rule: sample_shape.cases) simp_all

lemma pair_shape_sample_shape: "pair_shape vals \<Longrightarrow> sample_shape vals"
  by (cases vals rule: pair_shape.cases) simp_all

lemma Query_values_step:
  "sample_shape vals \<Longrightarrow>
   Query_values wd (vals # rest) vs =
     Query_values wd rest (AList.update (fst (sample_entry wd vals)) (snd (sample_entry wd vals)) vs)"
  by (erule sample_shapeE) simp

lemma Query_values_fault:
  "\<not> sample_shape vals \<Longrightarrow> \<exists>p. Query_values wd (vals # rest) vs = Inl p"
  by (cases vals rule: sample_shape.cases) (simp_all split: json.splits list.splits)

lemma IcpQuery_values_eq: "IcpQuery_values wd vals vs = Query_values wd vals vs"
  by (induction wd vals vs rule: Query_values.induct)
     (auto split: list.splits json.splits)

lemma Query_values_total:
  "(\<exists>vs'. Query_values wd vals vs = Inr vs') \<longleftrightarrow> list_all sample_shape vals"
proof (induction vals arbitrary: vs)
  case Nil
  then show ?case by simp
next
  case (Cons e vals)
  show ?case
  proof (cases "sample_shape e")
    case True
    then show ?thesis
      using Cons.IH by (simp add: Query_values_step [OF True] True del: Query_values.simps)
  next
    case False
    from Query_values_fault [OF False, of wd vals vs] False show ?thesis
      by auto
  qed
qed

lemma Query_values_fold:
  "list_all sample_shape vals \<Longrightarrow>
   Query_values wd vals vs = Inr (foldl put vs (map (sample_entry wd) vals))"
proof (induction vals arbitrary: vs)
  case Nil
  then show ?case by simp
next
  case (Cons e vals)
  then show ?case
    by (simp add: Query_values_step put_def del: Query_values.simps)
qed

lemma foldl_put_distinct:
  "distinct (map fst vs) \<Longrightarrow> distinct (map fst (foldl put vs es))"
  by (induction es arbitrary: vs) (simp_all add: put_def distinct_update)

lemma foldl_put_map_of:
  "map_of (foldl put vs es) = map_of (rev es @ vs)"
proof (induction es arbitrary: vs)
  case Nil
  then show ?case by simp
next
  case (Cons e es)
  have "map_of (put vs e) = (map_of vs)(fst e \<mapsto> snd e)"
    by (simp add: put_def update_conv')
  then show ?case
    by (simp add: Cons.IH map_add_def fun_eq_iff split: option.splits)
qed

lemma foldl_put_keys:
  "fst ` set (foldl put vs es) = fst ` set vs \<union> fst ` set es"
  by (induction es arbitrary: vs) (auto simp: put_def dom_update)

text \<open>
  C10, as the code has it. The loop over the entries of a \<^verbatim>\<open>values\<close> array, in Query and
  in IcpQuery, completes without a panic exactly when every entry begins with a number
  followed by a string; what follows the string is not looked at. Pairs of a number and a
  string are such entries. When the loop completes, the sample map has one key for every
  entry, the timestamp formatted by \<^verbatim>\<open>%.f\<close>, and a key holds the value of the last entry
  with that key.
\<close>

theorem sample_extraction:
  "((\<exists>vs. Query_values wd vals [] = Inr vs) \<longleftrightarrow> list_all sample_shape vals)
   \<and> IcpQuery_values wd vals [] = Query_values wd vals []
   \<and> (list_all pair_shape vals \<longrightarrow> list_all sample_shape vals)
   \<and> (\<forall>vs. Query_values wd vals [] = Inr vs \<longrightarrow>
         wf_map vs
         \<and> fst ` set vs = (\<lambda>e. fst (sample_entry wd e)) ` set vals
         \<and> map_of vs = map_of (rev (map (sample_entry wd) vals)))"
proof -
  have c: "list_all sample_shape vals" if "list_all pair_shape vals"
    using that by (induction vals) (simp_all add: pair_shape_sample_shape)
  have d: "wf_map vs \<and> fst ` set vs = (\<lambda>e. fst (sample_entry wd e)) ` set vals
      \<and> map_of vs = map_of (rev (map (sample_entry wd) vals))"
    if r: "Query_values wd vals [] = Inr vs" for vs
  proof -
    have "list_all sample_shape vals"
      using r Query_values_total [of wd vals "[]"] by blast
    then have "vs = foldl put [] (map (sample_entry wd) vals)"
      using r by (simp add: Query_values_fold)
    then show ?thesis
      using foldl_put_distinct [of "[]" "map (sample_entry wd) vals"]
        foldl_put_keys [of "[]" "map (sample_entry wd) vals"]
        foldl_put_map_of [of "[]" "map (sample_entry wd) vals"]
      by (simp add: wf_map_def image_image)
  qed
  show ?thesis
    using Query_values_total [of wd vals "[]"] IcpQuery_values_eq [of wd vals "[]"] c d
    by blast
qed

theorem sample_extraction_witness:
  "list_all sample_shape [[JNumber (10::int), JString ''1''], [JNumber 20, JString ''2'', JNull]]
   \<and> Query_values (demo_world (Inl []) (Inl []))
        [[JNumber 10, JString ''1''], [JNumber 20, JString ''2'', JNull]] []
       = Inr [(''10'', ''1''), (''20'', ''2'')]
   \<and> wf_map [(''10'', ''1''), (''20'', ''2'')]
   \<and> fst ` set [(''10'', ''1''), (''20'', ''2'')]
       = (\<lambda>e. fst (sample_entry (demo_world (Inl []) (Inl [])) e))
           ` set [[JNumber 10, JString ''1''], [JNumber 20, JString ''2'', JNull]]"
proof -
  let ?wd = "demo_world (Inl []) (Inl [])"
  let ?vals = "[[JNumber (10::int), JString ''1''], [JNumber 20, JString ''2'', JNull]]"
  have d: "Sprintf_d 10 = ''10''" "Sprintf_d 20 = ''20''"
    by (simp_all add: Sprintf_d_def)
  have q: "Query_values ?wd ?vals [] = Inr [(''10'', ''1''), (''20'', ''2'')]"
    by (simp add: demo_world_def d)
  have s: "list_all sample_shape ?vals"
    by simp
  from sample_extraction [of ?wd ?vals] q
  have "wf_map [(''10'', ''1''), (''20'', ''2'')]
      \<and> fst ` set [(''10'', ''1''), (''20'', ''2'')]
          = (\<lambda>e. fst (sample_entry ?wd e)) ` set ?vals"
    by blast
  with q s show ?thesis
    by blast
qed

text \<open>
  C10, as the claim states it, fails in its last part: the loop is total on more than the
  arrays of pairs. An entry of three elements is not a pair and the loop completes on it.
\<close>

theorem sample_extraction_counterexample:
  "Query_values (demo_world (Inl []) (Inl [])) [[JNumber 20, JString ''2'', JNull]] []
     = Inr [(''20'', ''2'')]
   \<and> \<not> pair_shape [JNumber (20::int), JString ''2'', JNull]"
proof -
  have "Sprintf_d 20 = ''20''"
    by (simp add: Sprintf_d_def)
  then show ?thesis
    by (simp add: demo_world_def)
qed

lemma Query_results_length:
  "Query_results wd res acc = Inr results \<Longrightarrow> length results = length acc + length res"
  by (induction wd res acc arbitrary: results rule: Query_results.induct)
     (auto split: sum.splits)

lemma Query_response_error:
  "returns_error (Query_response wd url response) \<longleftrightarrow> response_error wd response"
  by (simp add: Query_response_def returns_error_def response_error_def split: sum.splits)

lemma Query_response_success:
  assumes "Query_response wd url response = Return (Inr results)"
  shows "results \<noteq> []
    \<and> (\<exists>resp. json_Decode wd (Body response) = Inr resp
          \<and> length results = length (Data_Result resp))"
proof -
  from assms obtain resp where d: "json_Decode wd (Body response) = Inr resp"
    and ne: "length (Data_Result resp) \<noteq> 0"
    and r: "Query_results wd (Data_Result resp) [] = Inr results"
    by (auto simp: Query_response_def split: if_splits sum.splits)
  from Query_results_length [OF r] have "length results = length (Data_Result resp)"
    by simp
  with d ne show ?thesis
    by auto
qed

text \<open>
  C4, as the code has it. Query returns an error when the host does not parse as a URL and
  when the transport fails; the process ends when the certificate file cannot be read.
  When a response is received, Query returns an error exactly under one of the four
  conditions: a status other than 200 (the error carries the status text and the URL of
  the request), a body that does not decode, a result type other than \<^verbatim>\<open>matrix\<close>, no
  series. What it returns on success has one series for every series of the response,
  and is not empty.
\<close>

theorem Query_error_iff:
  "(url_Parse wd host = Inl e \<longrightarrow>
      Query wd host start end' step query = Return (Inl (UrlParseError e)))
   \<and> (url_Parse wd host = Inr u0 \<and> ReadFile wd ''cert.crt'' = Inl e \<longrightarrow>
      Query wd host start end' step query = Fatal)
   \<and> (url_Parse wd host = Inr u0 \<and> ReadFile wd ''cert.crt'' = Inr caCert
       \<and> client_Get wd caCert (url_String wd (Query_url wd u0 start end' step query)) = Inl e \<longrightarrow>
      Query wd host start end' step query = Return (Inl (TransportError e)))
   \<and> (url_Parse wd host = Inr u0 \<and> ReadFile wd ''cert.crt'' = Inr caCert
       \<and> client_Get wd caCert (url_String wd (Query_url wd u0 start end' step query))
           = Inr response \<longrightarrow>
      (returns_error (Query wd host start end' step query) \<longleftrightarrow> response_error wd response)
      \<and> (StatusCode response \<noteq> 200 \<longrightarrow>
           Query wd host start end' step query
             = Return (Inl (RequestFailed (Status response)
                 (url_String wd (Query_url wd u0 start end' step query)))))
      \<and> (\<forall>results. Query wd host start end' step query = Return (Inr results) \<longrightarrow>
           results \<noteq> []
           \<and> (\<exists>resp. json_Decode wd (Body response) = Inr resp
                 \<and> length results = length (Data_Result resp))))"
proof (intro conjI impI)
  assume "url_Parse wd host = Inl e"
  then show "Query wd host start end' step query = Return (Inl (UrlParseError e))"
    by (simp add: Query_def)
next
  assume "url_Parse wd host = Inr u0 \<and> ReadFile wd ''cert.crt'' = Inl e"
  then show "Query wd host start end' step query = Fatal"
    by (simp add: Query_def)
next
  assume "url_Parse wd host = Inr u0 \<and> ReadFile wd ''cert.crt'' = Inr caCert
    \<and> client_Get wd caCert (url_String wd (Query_url wd u0 start end' step query)) = Inl e"
  then show "Query wd host start end' step query = Return (Inl (TransportError e))"
    by (simp add: Query_def)
next
  assume a: "url_Parse wd host = Inr u0 \<and> ReadFile wd ''cert.crt'' = Inr caCert
    \<and> client_Get wd caCert (url_String wd (Query_url wd u0 start end' step query)) = Inr response"
  then have q: "Query wd host start end' step query
      = Query_response wd (url_String wd (Query_url wd u0 start end' step query)) response"
    by (simp add: Query_def)
  show "returns_error (Query wd host start end' step query) \<longleftrightarrow> response_error wd response"
    by (simp only: q Query_response_error)
  show "Query wd host start end' step query
      = Return (Inl (RequestFailed (Status response)
          (url_String wd (Query_url wd u0 start end' step query))))"
    if "StatusCode response \<noteq> 200"
    using that by (simp add: q Query_response_def)
  show "\<forall>results. Query wd host start end' step query = Return (Inr results) \<longrightarrow>
      results \<noteq> []
      \<and> (\<exists>resp. json_Decode wd (Body response) = Inr resp
            \<and> length results = length (Data_Result resp))"
    using Query_response_success [of wd _ response] by (simp only: q) blast
qed

theorem Query_error_iff_witness:
  "url_Parse (demo_world (Inr \<lparr>StatusCode = 404, Status = ''404 Not Found'', Body = []\<rparr>) (Inl []))
       ''http://h''
     = Inr \<lparr>Other = ''http://h'', Path = [], RawQuery = []\<rparr>
   \<and> ReadFile (demo_world (Inr \<lparr>StatusCode = 404, Status = ''404 Not Found'', Body = []\<rparr>) (Inl []))
       ''cert.crt''
     = Inr ''certificate''
   \<and> response_error (demo_world (Inr \<lparr>StatusCode = 404, Status = ''404 Not Found'', Body = []\<rparr>) (Inl []))
       \<lparr>StatusCode = 404, Status = ''404 Not Found'', Body = []\<rparr>
   \<and> returns_error
       (Query (demo_world (Inr \<lparr>StatusCode = 404, Status = ''404 Not Found'', Body = []\<rparr>) (Inl []))
         ''http://h'' \<lparr>wall_sec = 0, wall_nsec = 0\<rparr> \<lparr>wall_sec = 600, wall_nsec = 0\<rparr> 0 ''up'')
   \<and> Query
       (demo_world (Inr \<lparr>StatusCode = 200, Status = ''200 OK'', Body = []\<rparr>)
         (Inr \<lparr>Resp_Status = ''success'', Data_ResultType = ''matrix'',
               Data_Result = [\<lparr>Res_Metric = [(''__name__'', ''up'')],
                               Res_Values = [[JNumber 10, JString ''1'']]\<rparr>]\<rparr>))
       ''http://h'' \<lparr>wall_sec = 0, wall_nsec = 0\<rparr> \<lparr>wall_sec = 600, wall_nsec = 0\<rparr> 0 ''up''
     = Return (Inr [\<lparr>Metric = ''up'', Values = [(''10'', ''1'')]\<rparr>])
   \<and> \<not> response_error
       (demo_world (Inr \<lparr>StatusCode = 200, Status = ''200 OK'', Body = []\<rparr>)
         (Inr \<lparr>Resp_Status = ''success'', Data_ResultType = ''matrix'',
               Data_Result = [\<lparr>Res_Metric = [(''__name__'', ''up'')],
                               Res_Values = [[JNumber 10, JString ''1'']]\<rparr>]\<rparr>))
       \<lparr>StatusCode = 200, Status = ''200 OK'', Body = []\<rparr>"
proof -
  let ?r404 = "\<lparr>StatusCode = 404, Status = ''404 Not Found'', Body = []\<rparr>"
  let ?r200 = "\<lparr>StatusCode = 200, Status = ''200 OK'', Body = []\<rparr>"
  let ?dec = "\<lparr>Resp_Status = ''success'', Data_ResultType = ''matrix'',
      Data_Result = [\<lparr>Res_Metric = [(''__name__'', ''up'')],
                      Res_Values = [[JNumber (10::int), JString ''1'']]\<rparr>]\<rparr>"
  let ?w = "demo_world (Inr ?r404) (Inl [])"
  let ?w' = "demo_world (Inr ?r200) (Inr ?dec)"
  let ?u0 = "\<lparr>Other = ''http://h'', Path = [], RawQuery = []\<rparr>"
  let ?t0 = "\<lparr>wall_sec = 0, wall_nsec = 0\<rparr>" and ?t1 = "\<lparr>wall_sec = 600, wall_nsec = 0\<rparr>"
  have p: "url_Parse ?w ''http://h'' = Inr ?u0" and c: "ReadFile ?w ''cert.crt'' = Inr ''certificate''"
    and g: "client_Get ?w ''certificate'' (url_String ?w (Query_url ?w ?u0 ?t0 ?t1 0 ''up''))
      = Inr ?r404"
    by (simp_all add: demo_world_def client_Get_def)
  have p': "url_Parse ?w' ''http://h'' = Inr ?u0" and c': "ReadFile ?w' ''cert.crt'' = Inr ''certificate''"
    and g': "client_Get ?w' ''certificate'' (url_String ?w' (Query_url ?w' ?u0 ?t0 ?t1 0 ''up''))
      = Inr ?r200"
    by (simp_all add: demo_world_def client_Get_def)
  have e: "response_error ?w ?r404"
    by (simp add: response_error_def)
  have e': "\<not> response_error ?w' ?r200"
    by (simp add: response_error_def demo_world_def)
  have r: "returns_error (Query ?w ''http://h'' ?t0 ?t1 0 ''up'')"
    using Query_error_iff [of ?w "''http://h''" _ ?t0 ?t1 0 "''up''" ?u0 "''certificate''" ?r404]
      p c g e
    by blast
  have d: "Sprintf_d 10 = ''10''"
    by (simp add: Sprintf_d_def)
  have "Query ?w' ''http://h'' ?t0 ?t1 0 ''up''
      = Query_response ?w' (url_String ?w' (Query_url ?w' ?u0 ?t0 ?t1 0 ''up'')) ?r200"
    using p' c' g' by (simp add: Query_def)
  also have "\<dots> = Return (Inr [\<lparr>Metric = ''up'', Values = [(''10'', ''1'')]\<rparr>])"
    by (simp add: Query_response_def demo_world_def metricName_def d)
  finally have q: "Query ?w' ''http://h'' ?t0 ?t1 0 ''up''
      = Return (Inr [\<lparr>Metric = ''up'', Values = [(''10'', ''1'')]\<rparr>])" .
  show ?thesis
    using p c e r q e' by blast
qed

text \<open>
  C4, as the claim states it, fails: when the transport fails there is no response, so no
  status, no body and no decoded result, and Query returns an error.
\<close>

theorem Query_error_counterexample:
  "Query (demo_world (Inl ''connection refused'') (Inl []))
       ''http://h'' \<lparr>wall_sec = 0, wall_nsec = 0\<rparr> \<lparr>wall_sec = 600, wall_nsec = 0\<rparr> 0 ''up''
     = Return (Inl (TransportError ''connection refused''))
   \<and> RoundTrip (demo_world (Inl ''connection refused'') (Inl [])) ''certificate''
       \<lparr>Method = ''GET'',
        Url = url_String (demo_world (Inl ''connection refused'') (Inl []))
          (Query_url (demo_world (Inl ''connection refused'') (Inl []))
            \<lparr>Other = ''http://h'', Path = [], RawQuery = []\<rparr>
            \<lparr>wall_sec = 0, wall_nsec = 0\<rparr> \<lparr>wall_sec = 600, wall_nsec = 0\<rparr> 0 ''up''),
        Header = []\<rparr>
     = Inl ''connection refused''"
  by (simp add: Query_def client_Get_def demo_world_def)










end
